theory Spec2Isabelle
  imports Main
begin

section \<open>Data model of tasks/split\_pdfs.py\<close>

text \<open>
  The catalog entries and the case metadata are JSON objects read by key. A volume is read at
  \<open>reporter_slug\<close>, \<open>volume_folder\<close> and (with \<open>.get\<close>) \<open>publication_year\<close>; a case at
  \<open>file_name\<close>, \<open>first_page_order\<close>, \<open>last_page_order\<close> and \<open>provenance.source\<close>.
  Python integers are unbounded, so page ordinals are \<open>int\<close>.
\<close>

record volume =
  reporter_slug :: string
  volume_folder :: string
  publication_year :: "int option"

record provenance_info =
  source :: string

record case_record =
  file_name :: string
  first_page_order :: int
  last_page_order :: int
  provenance :: provenance_info

datatype page = Page nat

text \<open>
  The content of a stored object or of a local file, seen through the three parsers the
  program applies to it: \<open>PdfReader\<close> accepts \<open>Pdf\<close>, \<open>zipfile.ZipFile\<close> accepts \<open>Zip\<close>
  (members in archive order), \<open>json.load\<close> accepts \<open>Json\<close>; \<open>Raw\<close> is accepted by none
  (it is also the content of a temporary file that has just been created).
\<close>

datatype blob =
    Pdf "page list"
  | Json "case_record list"
  | Zip "(string \<times> blob) list"
  | Raw

datatype exn =
    NoSuchKey
  | ClientError
  | BadZipFile
  | JSONDecodeError
  | PdfReadError
  | IndexError
  | ValueError
  | KeyError
  | FileNotFoundError

datatype bucket = R2_STATIC_BUCKET | R2_SPLIT_PDFS_BUCKET

definition READ_BUCKET :: bucket where
  "READ_BUCKET = R2_STATIC_BUCKET"

definition WRITE_BUCKET :: bucket where
  "WRITE_BUCKET = R2_SPLIT_PDFS_BUCKET"

type_synonym path = nat

text \<open>Every f-string the program prints or returns is a constructor holding its interpolated values.\<close>

datatype msg =
    NotFoundInZip string
  | ErrorMetadataZip string exn
  | ErrorMetadataUnzipped string exn
  | SkippingMissingMetadata string
  | SkippingAllFastcase string
  | SplitCount nat
  | ProcessedCases nat string
  | ErrorProcessingLog string string exn
  | ErrorProcessing string exn
  | ErrorDownloading string string exn
  | Uploaded string bucket
  | ErrorUploading string string string exn

datatype event =
    GetObject bucket string
  | DownloadFile bucket string path
  | UploadFile path bucket string
  | CreateTemp path
  | Unlink path
  | Print msg

text \<open>
  The world a volume is processed in: what the object store answers to a read
  (\<open>objects\<close>), whether it refuses a write (\<open>put_fault\<close>), the objects written so far
  (\<open>uploaded\<close>), the local files, the counter that names the next temporary file, and the
  sequence of effects performed so far.
\<close>

record world =
  objects :: "bucket \<Rightarrow> string \<Rightarrow> exn + blob"
  put_fault :: "bucket \<Rightarrow> string \<Rightarrow> exn option"
  uploaded :: "(bucket \<times> string \<times> blob) list"
  files :: "path \<Rightarrow> blob option"
  next_tmp :: nat
  trace :: "event list"

definition log :: "event \<Rightarrow> world \<Rightarrow> world" where
  "log e w = w\<lparr>trace := trace w @ [e]\<rparr>"

definition new_events :: "world \<Rightarrow> world \<Rightarrow> event list" where
  "new_events w w' = drop (length (trace w)) (trace w')"

section \<open>The collaborators: object store, local files, PDF pages\<close>

definition get_object :: "bucket \<Rightarrow> string \<Rightarrow> world \<Rightarrow> (exn + blob) \<times> world" where
  "get_object b k w = (objects w b k, log (GetObject b k) w)"

definition download_file :: "bucket \<Rightarrow> string \<Rightarrow> path \<Rightarrow> world \<Rightarrow> (exn + unit) \<times> world" where
  "download_file b k p w =
     (let w1 = log (DownloadFile b k p) w in
      case objects w b k of
        Inl e \<Rightarrow> (Inl e, w1)
      | Inr body \<Rightarrow> (Inr (), w1\<lparr>files := (files w1)(p \<mapsto> body)\<rparr>))"

definition upload_file :: "path \<Rightarrow> bucket \<Rightarrow> string \<Rightarrow> world \<Rightarrow> (exn + unit) \<times> world" where
  "upload_file p b k w =
     (let w1 = log (UploadFile p b k) w in
      case files w p of
        None \<Rightarrow> (Inl FileNotFoundError, w1)
      | Some body \<Rightarrow>
          (case put_fault w b k of
             Some e \<Rightarrow> (Inl e, w1)
           | None \<Rightarrow> (Inr (), w1\<lparr>uploaded := uploaded w1 @ [(b, k, body)]\<rparr>)))"

text \<open>\<open>tempfile.NamedTemporaryFile(suffix=".pdf", delete=False)\<close>: a new, empty file that stays.\<close>

definition named_temporary_file :: "world \<Rightarrow> path \<times> world" where
  "named_temporary_file w =
     (next_tmp w,
      log (CreateTemp (next_tmp w))
        (w\<lparr>files := (files w)(next_tmp w \<mapsto> Raw), next_tmp := Suc (next_tmp w)\<rparr>))"

definition write_file :: "path \<Rightarrow> blob \<Rightarrow> world \<Rightarrow> world" where
  "write_file p body w = w\<lparr>files := (files w)(p \<mapsto> body)\<rparr>"

definition os_unlink :: "path \<Rightarrow> world \<Rightarrow> (exn + unit) \<times> world" where
  "os_unlink p w =
     (case files w p of
        None \<Rightarrow> (Inl FileNotFoundError, w)
      | Some body \<Rightarrow> (Inr (), log (Unlink p) (w\<lparr>files := (files w)(p := None)\<rparr>)))"

definition PdfReader :: "path \<Rightarrow> world \<Rightarrow> exn + page list" where
  "PdfReader p w =
     (case files w p of
        None \<Rightarrow> Inl FileNotFoundError
      | Some (Pdf ps) \<Rightarrow> Inr ps
      | Some other \<Rightarrow> Inl PdfReadError)"

text \<open>\<open>reader.pages[page_num]\<close>: a Python sequence index, negative ones counted from the end.\<close>

definition pages_getitem :: "page list \<Rightarrow> int \<Rightarrow> exn + page" where
  "pages_getitem ps i =
     (let n = int (length ps);
          j = (if i < 0 then n + i else i)
      in if 0 \<le> j \<and> j < n then Inr (ps ! nat j) else Inl IndexError)"

section \<open>split\_pdf\<close>

text \<open>The inner loop \<open>for page_num in range(start_page, end_page): writer.add_page(...)\<close>.\<close>

fun add_pages :: "page list \<Rightarrow> int list \<Rightarrow> page list \<Rightarrow> exn + page list" where
  "add_pages ps [] writer = Inr writer"
| "add_pages ps (page_num # rest) writer =
     (case pages_getitem ps page_num of
        Inl e \<Rightarrow> Inl e
      | Inr p \<Rightarrow> add_pages ps rest (writer @ [p]))"

text \<open>The loop over \<open>cases_metadata\<close>; \<open>range(a, b)\<close> is the list \<open>[a..b - 1]\<close>.\<close>

fun split_loop ::
  "page list \<Rightarrow> case_record list \<Rightarrow> (string \<times> path) list \<Rightarrow> world
     \<Rightarrow> (exn + (string \<times> path) list) \<times> world" where
  "split_loop ps [] case_pdfs w = (Inr case_pdfs, w)"
| "split_loop ps (c # rest) case_pdfs w =
     (if source (provenance c) \<noteq> ''Fastcase'' then
        (let start_page = first_page_order c - 1;
             end_page = last_page_order c
         in case add_pages ps [start_page..end_page - 1] [] of
              Inl e \<Rightarrow> (Inl e, w)
            | Inr doc \<Rightarrow>
                (case named_temporary_file w of
                   (temp_case_file, w1) \<Rightarrow>
                     split_loop ps rest (case_pdfs @ [(file_name c, temp_case_file)])
                       (write_file temp_case_file (Pdf doc) w1)))
      else split_loop ps rest case_pdfs w)"

definition split_pdf ::
  "path \<Rightarrow> case_record list \<Rightarrow> world \<Rightarrow> (exn + (string \<times> path) list) \<times> world" where
  "split_pdf pdf_path cases_metadata w =
     (case PdfReader pdf_path w of
        Inl e \<Rightarrow> (Inl e, w)
      | Inr ps \<Rightarrow> split_loop ps cases_metadata [] w)"

text \<open>What a caller finds behind the returned pairs: each name with the content of its file.\<close>

definition case_documents ::
  "(exn + (string \<times> path) list) \<times> world \<Rightarrow> exn + (string \<times> blob option) list" where
  "case_documents r =
     (case fst r of
        Inl e \<Rightarrow> Inl e
      | Inr case_pdfs \<Rightarrow> Inr (map (\<lambda>(n, p). (n, files (snd r) p)) case_pdfs))"

definition not_fastcase :: "case_record \<Rightarrow> bool" where
  "not_fastcase c = (source (provenance c) \<noteq> ''Fastcase'')"

definition page_range :: "case_record \<Rightarrow> int list" where
  "page_range c = [first_page_order c - 1..last_page_order c - 1]"


section \<open>get\_cases\_metadata\<close>

definition endswith :: "string \<Rightarrow> string \<Rightarrow> bool" where
  "endswith s suf = (drop (length s - length suf) s = suf)"

definition ZipFile :: "blob \<Rightarrow> exn + (string \<times> blob) list" where
  "ZipFile body = (case body of Zip entries \<Rightarrow> Inr entries | other \<Rightarrow> Inl BadZipFile)"

definition namelist :: "(string \<times> blob) list \<Rightarrow> string list" where
  "namelist zip_ref = map fst zip_ref"

text \<open>
  \<open>zip_ref.open(name)\<close> looks the name up in the archive's name table, where a later member
  replaces an earlier one of the same name.
\<close>

definition zip_open :: "(string \<times> blob) list \<Rightarrow> string \<Rightarrow> exn + blob" where
  "zip_open zip_ref name =
     (case map_of (rev zip_ref) name of None \<Rightarrow> Inl KeyError | Some member \<Rightarrow> Inr member)"

definition json_load :: "blob \<Rightarrow> exn + case_record list" where
  "json_load body = (case body of Json cases \<Rightarrow> Inr cases | other \<Rightarrow> Inl JSONDecodeError)"

definition zip_key :: "volume \<Rightarrow> string" where
  "zip_key volume = reporter_slug volume @ ''/'' @ volume_folder volume @ ''.zip''"

definition unzipped_key :: "volume \<Rightarrow> string" where
  "unzipped_key volume =
     reporter_slug volume @ ''/'' @ volume_folder volume @ ''/CasesMetadata.json''"

text \<open>The body of the outer \<open>try\<close>: either it raises, or it returns a value (\<open>None\<close> when it
  falls through after the "not found in zip" message).\<close>

definition metadata_from_zip ::
  "bucket \<Rightarrow> string \<Rightarrow> world \<Rightarrow> (exn + case_record list option) \<times> world" where
  "metadata_from_zip b k w =
     (case get_object b k w of
        (Inl e, w1) \<Rightarrow> (Inl e, w1)
      | (Inr body, w1) \<Rightarrow>
          (case ZipFile body of
             Inl e \<Rightarrow> (Inl e, w1)
           | Inr zip_ref \<Rightarrow>
               (case find (\<lambda>name. endswith name ''CasesMetadata.json'') (namelist zip_ref) of
                  None \<Rightarrow> (Inr None, log (Print (NotFoundInZip k)) w1)
                | Some metadata_file_name \<Rightarrow>
                    if metadata_file_name \<noteq> [] then
                      (case zip_open zip_ref metadata_file_name of
                         Inl e \<Rightarrow> (Inl e, w1)
                       | Inr metadata_file \<Rightarrow>
                           (case json_load metadata_file of
                              Inl e \<Rightarrow> (Inl e, w1)
                            | Inr cases \<Rightarrow> (Inr (Some cases), w1)))
                    else (Inr None, log (Print (NotFoundInZip k)) w1))))"

text \<open>The handler of \<open>NoSuchKey\<close>, with its own \<open>try\<close> around the second read.\<close>

definition metadata_from_unzipped ::
  "bucket \<Rightarrow> string \<Rightarrow> world \<Rightarrow> (exn + case_record list option) \<times> world" where
  "metadata_from_unzipped b k w =
     (case get_object b k w of
        (Inl e, w1) \<Rightarrow> (Inr None, log (Print (ErrorMetadataUnzipped k e)) w1)
      | (Inr body, w1) \<Rightarrow>
          (case json_load body of
             Inl e \<Rightarrow> (Inr None, log (Print (ErrorMetadataUnzipped k e)) w1)
           | Inr cases \<Rightarrow> (Inr (Some cases), w1)))"

definition get_cases_metadata ::
  "bucket \<Rightarrow> volume \<Rightarrow> world \<Rightarrow> (exn + case_record list option) \<times> world" where
  "get_cases_metadata b volume w =
     (case metadata_from_zip b (zip_key volume) w of
        (Inr r, w1) \<Rightarrow> (Inr r, w1)
      | (Inl e, w1) \<Rightarrow>
          if e = NoSuchKey then metadata_from_unzipped b (unzipped_key volume) w1
          else (Inr None, log (Print (ErrorMetadataZip (zip_key volume) e)) w1))"

section \<open>upload\_case\_pdfs\<close>

definition case_pdf_key :: "volume \<Rightarrow> string \<Rightarrow> string" where
  "case_pdf_key volume case_name =
     reporter_slug volume @ ''/'' @ volume_folder volume @ ''/case-pdfs/'' @ case_name @ ''.pdf''"

text \<open>One round of the loop is \<open>try\<close> (upload, print), \<open>except Exception\<close> (print), \<open>finally\<close>
  (unlink); an exception of the \<open>finally\<close> clause itself leaves the loop.\<close>

fun upload_case_pdfs ::
  "(string \<times> path) list \<Rightarrow> volume \<Rightarrow> world \<Rightarrow> (exn + unit) \<times> world" where
  "upload_case_pdfs [] volume w = (Inr (), w)"
| "upload_case_pdfs ((case_name, case_path) # rest) volume w =
     (case upload_file case_path WRITE_BUCKET (case_pdf_key volume case_name) w of
        (r, w1) \<Rightarrow>
          (case os_unlink case_path
                  (case r of
                     Inr u \<Rightarrow> log (Print (Uploaded (case_pdf_key volume case_name) WRITE_BUCKET)) w1
                   | Inl e \<Rightarrow>
                       log (Print (ErrorUploading case_name (volume_folder volume)
                                     (reporter_slug volume) e)) w1) of
             (Inl e, w3) \<Rightarrow> (Inl e, w3)
           | (Inr u, w3) \<Rightarrow> upload_case_pdfs rest volume w3))"

section \<open>download\_pdf and process\_volume\<close>

definition pdf_key :: "volume \<Rightarrow> string" where
  "pdf_key volume = reporter_slug volume @ ''/'' @ volume_folder volume @ ''.pdf''"

definition download_pdf :: "volume \<Rightarrow> path \<Rightarrow> world \<Rightarrow> (exn + unit) \<times> world" where
  "download_pdf volume local_path w =
     (case download_file READ_BUCKET (pdf_key volume) local_path w of
        (Inl e, w1) \<Rightarrow>
          (Inl e, log (Print (ErrorDownloading (volume_folder volume) (reporter_slug volume) e)) w1)
      | (Inr u, w1) \<Rightarrow> (Inr (), w1))"

text \<open>The body of the \<open>try\<close> of process\_volume.\<close>

definition split_and_upload ::
  "volume \<Rightarrow> path \<Rightarrow> case_record list \<Rightarrow> world \<Rightarrow> (exn + msg option) \<times> world" where
  "split_and_upload volume pdf_path cases_metadata w =
     (case split_pdf pdf_path cases_metadata w of
        (Inl e, w1) \<Rightarrow> (Inl e, w1)
      | (Inr case_pdfs, w1) \<Rightarrow>
          (case (if length case_pdfs \<noteq> 0
                 then upload_case_pdfs case_pdfs volume (log (Print (SplitCount (length case_pdfs))) w1)
                 else (Inr (), log (Print (SplitCount (length case_pdfs))) w1)) of
             (Inl e, w2) \<Rightarrow> (Inl e, w2)
           | (Inr u, w2) \<Rightarrow>
               (Inr (Some (ProcessedCases (length case_pdfs) (volume_folder volume))), w2)))"

text \<open>The \<open>try\<close> with its \<open>except Exception\<close> and its \<open>finally: os.unlink(pdf_path)\<close>.\<close>

definition try_split_and_upload ::
  "volume \<Rightarrow> path \<Rightarrow> case_record list \<Rightarrow> world \<Rightarrow> (exn + msg option) \<times> world" where
  "try_split_and_upload volume pdf_path cases_metadata w =
     (case (case split_and_upload volume pdf_path cases_metadata w of
              (Inl e, w1) \<Rightarrow>
                (Some (ErrorProcessing (volume_folder volume) e),
                 log (Print (ErrorProcessingLog (volume_folder volume) (reporter_slug volume) e)) w1)
            | (Inr r, w1) \<Rightarrow> (r, w1)) of
        (r, w2) \<Rightarrow>
          (case os_unlink pdf_path w2 of
             (Inl e, w3) \<Rightarrow> (Inl e, w3)
           | (Inr u, w3) \<Rightarrow> (Inr r, w3)))"

definition skip_missing_metadata :: "volume \<Rightarrow> world \<Rightarrow> (exn + msg option) \<times> world" where
  "skip_missing_metadata volume w =
     (Inr None, log (Print (SkippingMissingMetadata (volume_folder volume))) w)"

text \<open>
  \<open>if not cases_metadata\<close> holds of \<open>None\<close> and of the empty list. The download is called
  inside the \<open>with\<close> block of the temporary file, before the \<open>try\<close> statement begins.
\<close>

definition process_volume :: "volume \<Rightarrow> world \<Rightarrow> (exn + msg option) \<times> world" where
  "process_volume volume w =
     (case get_cases_metadata READ_BUCKET volume w of
        (Inl e, w1) \<Rightarrow> (Inl e, w1)
      | (Inr None, w1) \<Rightarrow> skip_missing_metadata volume w1
      | (Inr (Some cases_metadata), w1) \<Rightarrow>
          if cases_metadata = [] then skip_missing_metadata volume w1
          else if \<not> list_all (\<lambda>c. source (provenance c) = ''Fastcase'') cases_metadata then
            (case named_temporary_file w1 of
               (pdf_path, w2) \<Rightarrow>
                 (case download_pdf volume pdf_path w2 of
                    (Inl e, w3) \<Rightarrow> (Inl e, w3)
                  | (Inr u, w3) \<Rightarrow> try_split_and_upload volume pdf_path cases_metadata w3))
          else (Inr None, log (Print (SkippingAllFastcase (volume_folder volume))) w1))"

section \<open>get\_volumes\_to\_process\<close>

text \<open>
  The selectors arrive from the command line as Python strings, or are \<open>None\<close>. The reporter
  and the volume selector are only compared with catalog fields, so they are \<open>string\<close>s. The
  year selector is handed to \<open>int\<close>, which classifies its characters, so it is the list of its
  code points.

  \<open>int(s)\<close> of a string, base 10: whitespace at both ends is dropped; a sign may come first;
  then decimal digits of any script, with single underscores allowed between two digits;
  more than 4300 digits (the interpreter's default limit) or anything else is a \<open>ValueError\<close>.
  The whitespace is the six ASCII characters U+0009 to U+000D and space, and the whitespace
  of the Unicode database above U+007F; the ASCII separators U+001C to U+001F are not dropped.
  The decimal digits come in runs that each begin with a digit zero: \<open>(first, length)\<close>.
\<close>

type_synonym unicode = "nat list"

definition codepoints :: "string \<Rightarrow> unicode" where
  "codepoints s = map of_char s"

definition int_whitespace :: "nat list" where
  "int_whitespace =
    [0x09, 0x0A, 0x0B, 0x0C, 0x0D, 0x20, 0x85, 0xA0, 0x1680, 0x2000, 0x2001, 0x2002, 0x2003,
     0x2004, 0x2005, 0x2006, 0x2007, 0x2008, 0x2009, 0x200A, 0x2028, 0x2029, 0x202F, 0x205F,
     0x3000]"

definition is_space :: "nat \<Rightarrow> bool" where
  "is_space c = (c \<in> set int_whitespace)"

definition strip :: "unicode \<Rightarrow> unicode" where
  "strip s = rev (dropWhile is_space (rev (dropWhile is_space s)))"

definition decimal_runs :: "(nat \<times> nat) list" where
  "decimal_runs =
    [(0x30, 10), (0x660, 10), (0x6F0, 10), (0x7C0, 10), (0x966, 10), (0x9E6, 10),
     (0xA66, 10), (0xAE6, 10), (0xB66, 10), (0xBE6, 10), (0xC66, 10), (0xCE6, 10),
     (0xD66, 10), (0xDE6, 10), (0xE50, 10), (0xED0, 10), (0xF20, 10), (0x1040, 10),
     (0x1090, 10), (0x17E0, 10), (0x1810, 10), (0x1946, 10), (0x19D0, 10), (0x1A80, 10),
     (0x1A90, 10), (0x1B50, 10), (0x1BB0, 10), (0x1C40, 10), (0x1C50, 10), (0xA620, 10),
     (0xA8D0, 10), (0xA900, 10), (0xA9D0, 10), (0xA9F0, 10), (0xAA50, 10), (0xABF0, 10),
     (0xFF10, 10), (0x104A0, 10), (0x10D30, 10), (0x11066, 10), (0x110F0, 10),
     (0x11136, 10), (0x111D0, 10), (0x112F0, 10), (0x11450, 10), (0x114D0, 10),
     (0x11650, 10), (0x116C0, 10), (0x11730, 10), (0x118E0, 10), (0x11950, 10),
     (0x11C50, 10), (0x11D50, 10), (0x11DA0, 10), (0x16A60, 10), (0x16AC0, 10),
     (0x16B50, 10), (0x1D7CE, 50), (0x1E140, 10), (0x1E2F0, 10), (0x1E950, 10),
     (0x1FBF0, 10)]"

definition digit_of :: "nat \<Rightarrow> nat option" where
  "digit_of c =
     (case find (\<lambda>run. fst run \<le> c \<and> c < fst run + snd run) decimal_runs of
        None \<Rightarrow> None
      | Some run \<Rightarrow> Some ((c - fst run) mod 10))"

definition int_max_str_digits :: nat where
  "int_max_str_digits = 4300"

fun digits_value :: "unicode \<Rightarrow> nat \<Rightarrow> nat option" where
  "digits_value [] acc = Some acc"
| "digits_value (c # cs) acc =
     (case digit_of c of
        Some d \<Rightarrow> digits_value cs (10 * acc + d)
      | None \<Rightarrow>
          if c = 0x5F then
            (case cs of
               [] \<Rightarrow> None
             | d # ds \<Rightarrow> if digit_of d \<noteq> None then digits_value cs acc else None)
          else None)"

definition unsigned_value :: "unicode \<Rightarrow> nat option" where
  "unsigned_value s =
     (case s of
        [] \<Rightarrow> None
      | c # cs \<Rightarrow>
          if digit_of c = None then None
          else if int_max_str_digits < length (filter (\<lambda>d. digit_of d \<noteq> None) s) then None
          else digits_value s 0)"

definition py_int :: "unicode \<Rightarrow> exn + int" where
  "py_int s =
     (case strip s of
        [] \<Rightarrow> Inl ValueError
      | c # cs \<Rightarrow>
          (case (if c = 0x2D then map_option (\<lambda>n. - int n) (unsigned_value cs)
                 else if c = 0x2B then map_option int (unsigned_value cs)
                 else map_option int (unsigned_value (c # cs))) of
             None \<Rightarrow> Inl ValueError
           | Some n \<Rightarrow> Inr n))"

definition truthy :: "'a list option \<Rightarrow> bool" where
  "truthy sel = (case sel of None \<Rightarrow> False | Some s \<Rightarrow> s \<noteq> [])"

text \<open>The comprehension of the year filter: \<open>int(publication_year)\<close> is evaluated once for
  every element it visits, so never on an empty list.\<close>

fun year_comprehension :: "volume list \<Rightarrow> unicode \<Rightarrow> exn + volume list" where
  "year_comprehension [] year = Inr []"
| "year_comprehension (v # rest) year =
     (case py_int year of
        Inl e \<Rightarrow> Inl e
      | Inr n \<Rightarrow>
          (case year_comprehension rest year of
             Inl e \<Rightarrow> Inl e
           | Inr kept \<Rightarrow> Inr (if publication_year v = Some n then v # kept else kept)))"

text \<open>
  The catalog is the parsed answer of \<open>get_volumes_metadata\<close>, a helper outside this module;
  the function takes it as an argument. The warning it prints is not recorded.
\<close>

definition get_volumes_to_process ::
  "volume list \<Rightarrow> string option \<Rightarrow> string option \<Rightarrow> unicode option
     \<Rightarrow> exn + volume list" where
  "get_volumes_to_process catalog reporter volume year =
     (if truthy volume \<and> reporter = None then Inr []
      else
        (let by_reporter =
               (if truthy reporter then filter (\<lambda>v. Some (reporter_slug v) = reporter) catalog
                else catalog);
             by_volume =
               (if truthy volume then filter (\<lambda>v. Some (volume_folder v) = volume) by_reporter
                else by_reporter)
         in case year of
              None \<Rightarrow> Inr by_volume
            | Some y \<Rightarrow> if y \<noteq> [] then year_comprehension by_volume y else Inr by_volume))"

section \<open>Observations the properties are stated with\<close>

fun is_get_object :: "event \<Rightarrow> bool" where
  "is_get_object (GetObject b k) = True"
| "is_get_object e = False"

definition parsed_cases :: "exn + blob \<Rightarrow> case_record list option" where
  "parsed_cases r = (case r of Inr (Json cases) \<Rightarrow> Some cases | other \<Rightarrow> None)"

definition first_metadata_entry :: "(string \<times> blob) list \<Rightarrow> (string \<times> blob) option" where
  "first_metadata_entry entries =
     find (\<lambda>entry. endswith (fst entry) ''CasesMetadata.json'') entries"

definition last_member_named :: "(string \<times> blob) list \<Rightarrow> string \<Rightarrow> blob" where
  "last_member_named entries name = snd (last (filter (\<lambda>entry. fst entry = name) entries))"

section \<open>Concrete inputs\<close>

definition demo_pages :: "page list" where
  "demo_pages = [Page 1, Page 2, Page 3, Page 4, Page 5]"

definition demo_world :: world where
  "demo_world =
     \<lparr>objects = (\<lambda>b k. Inl NoSuchKey), put_fault = (\<lambda>b k. None), uploaded = [],
      files = (\<lambda>p. None)(0 \<mapsto> Pdf demo_pages), next_tmp = 1, trace = []\<rparr>"

definition demo_case :: "string \<Rightarrow> int \<Rightarrow> int \<Rightarrow> string \<Rightarrow> case_record" where
  "demo_case n a b s =
     \<lparr>file_name = n, first_page_order = a, last_page_order = b, provenance = \<lparr>source = s\<rparr>\<rparr>"

definition demo_volume :: volume where
  "demo_volume = \<lparr>reporter_slug = ''us'', volume_folder = ''1'', publication_year = Some 1990\<rparr>"


definition store_of :: "(string \<times> (exn + blob)) list \<Rightarrow> bucket \<Rightarrow> string \<Rightarrow> exn + blob" where
  "store_of answers b k = (case map_of answers k of None \<Rightarrow> Inl NoSuchKey | Some r \<Rightarrow> r)"

definition world_of :: "(string \<times> (exn + blob)) list \<Rightarrow> world" where
  "world_of answers =
     \<lparr>objects = store_of answers, put_fault = (\<lambda>b k. None), uploaded = [],
      files = (\<lambda>p. None), next_tmp = 0, trace = []\<rparr>"

definition demo_archive :: blob where
  "demo_archive =
     Zip [(''1/readme.txt'', Raw),
          (''1/CasesMetadata.json'', Json [demo_case ''a'' 1 2 ''Harvard'']),
          (''old/CasesMetadata.json'', Json [])]"

definition duplicate_entries :: "(string \<times> blob) list" where
  "duplicate_entries =
     [(''1/CasesMetadata.json'', Json [demo_case ''a'' 1 2 ''Harvard'']),
      (''1/CasesMetadata.json'', Json [demo_case ''z'' 3 5 ''Harvard''])]"

text \<open>What one round of the upload loop does to the trace and to the write bucket.\<close>

definition upload_events :: "(bucket \<Rightarrow> string \<Rightarrow> exn option) \<Rightarrow> volume \<Rightarrow> string \<times> path \<Rightarrow> event list" where
  "upload_events faults volume item =
     [UploadFile (snd item) WRITE_BUCKET (case_pdf_key volume (fst item)),
      Print (case faults WRITE_BUCKET (case_pdf_key volume (fst item)) of
               None \<Rightarrow> Uploaded (case_pdf_key volume (fst item)) WRITE_BUCKET
             | Some e \<Rightarrow> ErrorUploading (fst item) (volume_folder volume) (reporter_slug volume) e),
      Unlink (snd item)]"

definition upload_written :: "world \<Rightarrow> volume \<Rightarrow> string \<times> path \<Rightarrow> (bucket \<times> string \<times> blob) list" where
  "upload_written w volume item =
     (case (files w (snd item), put_fault w WRITE_BUCKET (case_pdf_key volume (fst item))) of
        (Some body, None) \<Rightarrow> [(WRITE_BUCKET, case_pdf_key volume (fst item), body)]
      | other \<Rightarrow> [])"

definition upload_world :: world where
  "upload_world =
     \<lparr>objects = (\<lambda>b k. Inl NoSuchKey),
      put_fault = (\<lambda>b k. if k = ''us/1/case-pdfs/b.pdf'' then Some ClientError else None),
      uploaded = [],
      files = (\<lambda>p. None)(1 \<mapsto> Pdf [Page 1], 2 \<mapsto> Pdf [Page 2], 3 \<mapsto> Pdf [Page 3]),
      next_tmp = 4, trace = []\<rparr>"

text \<open>Effects on local files, reads of one key, and events that are neither for a volume's PDF.\<close>

fun is_file_io :: "event \<Rightarrow> bool" where
  "is_file_io (DownloadFile b k p) = True"
| "is_file_io (UploadFile p b k) = True"
| "is_file_io (CreateTemp p) = True"
| "is_file_io (Unlink p) = True"
| "is_file_io e = False"

fun reads_key :: "string \<Rightarrow> event \<Rightarrow> bool" where
  "reads_key k (GetObject b k') = (k' = k)"
| "reads_key k (DownloadFile b k' p) = (k' = k)"
| "reads_key k e = False"

definition quiet :: "volume \<Rightarrow> event \<Rightarrow> bool" where
  "quiet volume e = (\<not> is_file_io e \<and> \<not> reads_key (pdf_key volume) e)"

definition failing_world :: world where
  "failing_world =
     world_of [(''us/1/CasesMetadata.json'', Inr (Json [demo_case ''a'' 1 2 ''Harvard''])),
               (''us/1.pdf'', Inl ClientError)]"

definition split_failure_world :: world where
  "split_failure_world =
     world_of [(''us/1/CasesMetadata.json'', Inr (Json [demo_case ''a'' 5 6 ''Harvard''])),
               (''us/1.pdf'', Inr (Pdf demo_pages))]"

definition complete_world :: world where
  "complete_world =
     world_of [(''us/1/CasesMetadata.json'',
                Inr (Json [demo_case ''a'' 1 2 ''Harvard'', demo_case ''b'' 3 3 ''Fastcase'',
                           demo_case ''c'' 3 5 ''Harvard''])),
               (''us/1.pdf'', Inr (Pdf demo_pages))]"

section \<open>Properties of split\_pdf\<close>

text \<open>Reading pages whose indices all lie inside the document copies them in order.\<close>

lemma add_pages_in_range:
  "\<forall>i \<in> set idxs. 0 \<le> i \<and> i < int (length ps) \<Longrightarrow>
   add_pages ps idxs writer = Inr (writer @ map (\<lambda>i. ps ! nat i) idxs)"
  by (induction idxs arbitrary: writer) (auto simp: pages_getitem_def)

lemma add_pages_out_of_range:
  "i \<in> set idxs \<Longrightarrow> int (length ps) \<le> i \<Longrightarrow> add_pages ps idxs writer = Inl IndexError"
proof (induction idxs arbitrary: writer)
  case Nil
  then show ?case by simp
next
  case (Cons j rest)
  show ?case
  proof (cases "pages_getitem ps j")
    case (Inl e)
    then have "e = IndexError" by (auto simp: pages_getitem_def Let_def split: if_splits)
    with Inl show ?thesis by simp
  next
    case (Inr p)
    with Cons.prems have "i \<in> set rest"
      by (auto simp: pages_getitem_def Let_def split: if_splits)
    with Cons.IH Cons.prems Inr show ?thesis by simp
  qed
qed

lemma split_loop_ok:
  assumes "\<forall>c \<in> set cs. not_fastcase c \<longrightarrow> (\<forall>i \<in> set (page_range c). 0 \<le> i \<and> i < int (length ps))"
  shows "fst (split_loop ps cs acc w) =
           Inr (acc @ zip (map file_name (filter not_fastcase cs))
                          [next_tmp w ..< next_tmp w + length (filter not_fastcase cs)])
         \<and> (\<forall>p < next_tmp w. files (snd (split_loop ps cs acc w)) p = files w p)
         \<and> (\<forall>k < length (filter not_fastcase cs).
               files (snd (split_loop ps cs acc w)) (next_tmp w + k) =
                 Some (Pdf (map (\<lambda>i. ps ! nat i) (page_range (filter not_fastcase cs ! k)))))"
  using assms
proof (induction cs arbitrary: acc w)
  case Nil
  then show ?case by simp
next
  case (Cons c rest)
  show ?case
  proof (cases "not_fastcase c")
    case False
    with Cons show ?thesis by (simp add: not_fastcase_def)
  next
    case True
    let ?doc = "map (\<lambda>i. ps ! nat i) (page_range c)"
    let ?w2 = "write_file (next_tmp w) (Pdf ?doc) (snd (named_temporary_file w))"
    have ap: "add_pages ps [first_page_order c - 1..last_page_order c - 1] [] = Inr ?doc"
      using Cons.prems True add_pages_in_range[of "page_range c" ps "[]"]
      by (simp add: page_range_def)
    have step: "split_loop ps (c # rest) acc w =
                split_loop ps rest (acc @ [(file_name c, next_tmp w)]) ?w2"
      using True ap by (simp add: not_fastcase_def named_temporary_file_def)
    have nt: "next_tmp ?w2 = Suc (next_tmp w)"
      by (simp add: write_file_def named_temporary_file_def log_def)
    have fl: "files ?w2 = (files w)(next_tmp w \<mapsto> Pdf ?doc)"
      by (simp add: write_file_def named_temporary_file_def log_def)
    have ih: "fst (split_loop ps rest (acc @ [(file_name c, next_tmp w)]) ?w2) =
           Inr ((acc @ [(file_name c, next_tmp w)]) @ zip (map file_name (filter not_fastcase rest))
                          [next_tmp ?w2 ..< next_tmp ?w2 + length (filter not_fastcase rest)])
         \<and> (\<forall>p < next_tmp ?w2. files (snd (split_loop ps rest (acc @ [(file_name c, next_tmp w)]) ?w2)) p = files ?w2 p)
         \<and> (\<forall>k < length (filter not_fastcase rest).
               files (snd (split_loop ps rest (acc @ [(file_name c, next_tmp w)]) ?w2)) (next_tmp ?w2 + k) =
                 Some (Pdf (map (\<lambda>i. ps ! nat i) (page_range (filter not_fastcase rest ! k)))))"
      using Cons.IH[of "acc @ [(file_name c, next_tmp w)]" ?w2] Cons.prems by simp
    have a: "fst (split_loop ps (c # rest) acc w) =
           Inr (acc @ zip (map file_name (filter not_fastcase (c # rest)))
                          [next_tmp w ..< next_tmp w + length (filter not_fastcase (c # rest))])"
    proof -
      have u: "[next_tmp w ..< Suc (next_tmp w + length (filter not_fastcase rest))] =
               next_tmp w # [Suc (next_tmp w) ..< Suc (next_tmp w + length (filter not_fastcase rest))]"
        by (simp add: upt_conv_Cons del: upt_Suc)
      show ?thesis using ih True by (simp add: step nt u del: split_loop.simps upt_Suc)
    qed
    have b: "\<forall>p < next_tmp w. files (snd (split_loop ps (c # rest) acc w)) p = files w p"
      using ih by (simp add: step nt fl del: split_loop.simps)
    have c: "\<forall>k < length (filter not_fastcase (c # rest)).
               files (snd (split_loop ps (c # rest) acc w)) (next_tmp w + k) =
                 Some (Pdf (map (\<lambda>i. ps ! nat i) (page_range (filter not_fastcase (c # rest) ! k))))"
    proof (intro allI impI)
      fix k assume k: "k < length (filter not_fastcase (c # rest))"
      show "files (snd (split_loop ps (c # rest) acc w)) (next_tmp w + k) =
                 Some (Pdf (map (\<lambda>i. ps ! nat i) (page_range (filter not_fastcase (c # rest) ! k))))"
      proof (cases k)
        case 0
        then show ?thesis using ih True by (simp add: step nt fl del: split_loop.simps)
      next
        case (Suc k')
        then show ?thesis using ih True k by (simp add: step nt fl del: split_loop.simps)
      qed
    qed
    from a b c show ?thesis by blast
  qed
qed

text \<open>The only exception the page loop can raise is the index error of the page sequence.\<close>

lemma add_pages_raises_IndexError: "add_pages ps idxs writer = Inl e \<Longrightarrow> e = IndexError"
  by (induction idxs arbitrary: writer)
     (auto simp: pages_getitem_def Let_def split: if_splits sum.splits)

lemma split_loop_raises:
  assumes "c \<in> set cs" "not_fastcase c" "i \<in> set (page_range c)" "int (length ps) \<le> i"
  shows "fst (split_loop ps cs acc w) = Inl IndexError"
  using assms(1)
proof (induction cs arbitrary: acc w)
  case Nil
  then show ?case by simp
next
  case (Cons d rest)
  show ?case
  proof (cases "not_fastcase d")
    case False
    with Cons assms(2) show ?thesis by (auto simp: not_fastcase_def)
  next
    case True
    show ?thesis
    proof (cases "add_pages ps [first_page_order d - 1..last_page_order d - 1] []")
      case (Inl e)
      with add_pages_raises_IndexError have "e = IndexError" by blast
      with Inl True show ?thesis by (simp add: not_fastcase_def)
    next
      case (Inr doc)
      have "d \<noteq> c"
      proof
        assume "d = c"
        with add_pages_out_of_range[OF assms(3,4), of "[]"] Inr show False
          by (simp add: page_range_def)
      qed
      with Cons.prems have "c \<in> set rest" by simp
      with Cons.IH Inr True show ?thesis
        by (simp add: not_fastcase_def named_temporary_file_def)
    qed
  qed
qed

text \<open>
  Claim C1. When the file at \<open>pdf_path\<close> is a PDF and every page index that a record without
  the "Fastcase" tag asks for lies inside it, split\_pdf returns, in the order of the input
  records, one pair per record without the tag, named by the record's \<open>file_name\<close>, and the
  file behind the pair holds the source pages at the 0-based indices
  \<open>first_page_order - 1\<close> up to but excluding \<open>last_page_order\<close>, in their order. Records
  with the tag give no pair, and with no record left the result is the empty list, not an error.
\<close>

theorem split_pdf_one_document_per_case:
  assumes "files w pdf_path = Some (Pdf ps)"
      and "\<forall>c \<in> set cases. not_fastcase c \<longrightarrow>
             (\<forall>i \<in> set (page_range c). 0 \<le> i \<and> i < int (length ps))"
  shows "case_documents (split_pdf pdf_path cases w) =
           Inr (map (\<lambda>c. (file_name c, Some (Pdf (map (\<lambda>i. ps ! nat i) (page_range c)))))
                  (filter not_fastcase cases))"
proof -
  let ?F = "filter not_fastcase cases"
  let ?r = "split_loop ps cases [] w"
  have sp: "split_pdf pdf_path cases w = ?r"
    using assms(1) by (simp add: split_pdf_def PdfReader_def)
  from split_loop_ok[OF assms(2), of "[]" w]
  have pairs: "fst ?r = Inr (zip (map file_name ?F) [next_tmp w ..< next_tmp w + length ?F])"
    and docs: "\<forall>k < length ?F. files (snd ?r) (next_tmp w + k) =
                 Some (Pdf (map (\<lambda>i. ps ! nat i) (page_range (?F ! k))))"
    by simp_all
  have "map (\<lambda>(n, p). (n, files (snd ?r) p))
          (zip (map file_name ?F) [next_tmp w ..< next_tmp w + length ?F]) =
        map (\<lambda>c. (file_name c, Some (Pdf (map (\<lambda>i. ps ! nat i) (page_range c))))) ?F"
    using docs by (intro nth_equalityI) simp_all
  with pairs show ?thesis by (simp add: sp case_documents_def)
qed

text \<open>An instance of C1: five pages, two records to split around one tagged "Fastcase".\<close>

theorem split_pdf_one_document_per_case_witness:
  "case_documents
     (split_pdf 0 [demo_case ''a'' 1 2 ''Harvard'', demo_case ''b'' 3 3 ''Fastcase'',
                   demo_case ''c'' 3 5 ''Harvard''] demo_world) =
   Inr [(''a'', Some (Pdf [Page 1, Page 2])), (''c'', Some (Pdf [Page 3, Page 4, Page 5]))]"
  using split_pdf_one_document_per_case
    [of demo_world 0 demo_pages
        "[demo_case ''a'' 1 2 ''Harvard'', demo_case ''b'' 3 3 ''Fastcase'',
          demo_case ''c'' 3 5 ''Harvard'']"]
  by (simp add: demo_world_def demo_pages_def demo_case_def not_fastcase_def page_range_def
      upto_rec1)

text \<open>
  Claim C2, as stated, fails: for the record with \<open>first_page_order = 3\<close> and
  \<open>last_page_order = 5\<close> on a document of five pages, the case PDF is not the two pages 3 and 4.
\<close>

theorem split_pdf_two_pages_counterexample:
  "case_documents (split_pdf 0 [demo_case ''c'' 3 5 ''Harvard''] demo_world) \<noteq>
     Inr [(''c'', Some (Pdf [Page 3, Page 4]))]"
  by (simp add: case_documents_def split_pdf_def PdfReader_def demo_world_def demo_pages_def
      demo_case_def pages_getitem_def named_temporary_file_def write_file_def log_def)

text \<open>
  Claim C2, amended. For a source PDF of at least 5 pages and a single record without the
  "Fastcase" tag with \<open>first_page_order = 3\<close> and \<open>last_page_order = 5\<close>, the case PDF holds
  exactly 3 pages: the source's 1-based pages 3, 4 and 5 (0-based 2, 3, 4), in their order.
\<close>

theorem split_pdf_three_to_five:
  assumes "files w pdf_path = Some (Pdf ps)" and "5 \<le> length ps"
      and "not_fastcase c" and "first_page_order c = 3" and "last_page_order c = 5"
  shows "case_documents (split_pdf pdf_path [c] w) =
           Inr [(file_name c, Some (Pdf [ps ! 2, ps ! 3, ps ! 4]))]"
proof -
  have "add_pages ps [2, 3, 4] [] = Inr [ps ! 2, ps ! 3, ps ! 4]"
    using assms(2) by (simp add: pages_getitem_def)
  then show ?thesis
    using assms
    by (simp add: case_documents_def split_pdf_def PdfReader_def not_fastcase_def
        named_temporary_file_def write_file_def log_def)
qed

text \<open>An instance of the amended C2 on the five-page document.\<close>

theorem split_pdf_three_to_five_witness:
  "case_documents (split_pdf 0 [demo_case ''c'' 3 5 ''Harvard''] demo_world) =
     Inr [(''c'', Some (Pdf [Page 3, Page 4, Page 5]))]"
  using split_pdf_three_to_five [of demo_world 0 demo_pages "demo_case ''c'' 3 5 ''Harvard''"]
  by (simp add: demo_world_def demo_pages_def demo_case_def not_fastcase_def)

text \<open>
  Claim C9. If some record without the "Fastcase" tag asks for a page index at or beyond the
  page count of the source document, split\_pdf does not skip the record or return a list: it
  raises the index error of the page sequence to its caller.
\<close>

theorem split_pdf_raises_on_page_beyond_document:
  assumes "files w pdf_path = Some (Pdf ps)"
      and "c \<in> set cases" and "not_fastcase c"
      and "i \<in> set (page_range c)" and "int (length ps) \<le> i"
  shows "fst (split_pdf pdf_path cases w) = Inl IndexError"
  using assms(1) split_loop_raises[OF assms(2-5)]
  by (simp add: split_pdf_def PdfReader_def)

text \<open>An instance of C9: the second record asks for page 6 of a five-page document.\<close>

theorem split_pdf_raises_on_page_beyond_document_witness:
  "fst (split_pdf 0 [demo_case ''a'' 1 2 ''Harvard'', demo_case ''c'' 5 6 ''Harvard''] demo_world)
     = Inl IndexError"
  using split_pdf_raises_on_page_beyond_document
    [of demo_world 0 demo_pages "demo_case ''c'' 5 6 ''Harvard''"
        "[demo_case ''a'' 1 2 ''Harvard'', demo_case ''c'' 5 6 ''Harvard'']" 5]
  by (simp add: demo_world_def demo_pages_def demo_case_def not_fastcase_def page_range_def)


section \<open>Properties of get\_cases\_metadata\<close>

lemma new_events_log [simp]: "new_events w (log e w) = [e]"
  by (simp add: new_events_def log_def)

lemma new_events_log2 [simp]: "new_events w (log e2 (log e w)) = [e, e2]"
  by (simp add: new_events_def log_def)

lemma new_events_log3 [simp]: "new_events w (log e3 (log e2 (log e w))) = [e, e2, e3]"
  by (simp add: new_events_def log_def)

lemma find_nonempty: "find (\<lambda>name. endswith name ''CasesMetadata.json'') ns = Some n \<Longrightarrow> n \<noteq> []"
  by (auto simp: find_Some_iff endswith_def)

lemma metadata_from_zip_missing:
  "objects w b k = Inl e \<Longrightarrow> metadata_from_zip b k w = (Inl e, log (GetObject b k) w)"
  by (simp add: metadata_from_zip_def get_object_def)

lemma metadata_from_zip_not_archive:
  "objects w b k = Inr body \<Longrightarrow> \<forall>entries. body \<noteq> Zip entries \<Longrightarrow>
   metadata_from_zip b k w = (Inl BadZipFile, log (GetObject b k) w)"
  by (cases body) (simp_all add: metadata_from_zip_def get_object_def ZipFile_def)

lemma metadata_from_zip_archive:
  "objects w b k = Inr (Zip entries) \<Longrightarrow>
   metadata_from_zip b k w =
     (case find (\<lambda>name. endswith name ''CasesMetadata.json'') (namelist entries) of
        None \<Rightarrow> (Inr None, log (Print (NotFoundInZip k)) (log (GetObject b k) w))
      | Some name \<Rightarrow>
          (case zip_open entries name of
             Inl e \<Rightarrow> (Inl e, log (GetObject b k) w)
           | Inr member \<Rightarrow>
               (case json_load member of
                  Inl e \<Rightarrow> (Inl e, log (GetObject b k) w)
                | Inr cases \<Rightarrow> (Inr (Some cases), log (GetObject b k) w))))"
  by (auto simp: metadata_from_zip_def get_object_def ZipFile_def
      split: option.splits dest: find_nonempty)

lemma find_map_fst:
  "find P (map fst entries) = map_option fst (find (\<lambda>entry. P (fst entry)) entries)"
  by (induction entries) auto

lemma zip_open_distinct:
  "distinct (map fst entries) \<Longrightarrow> (name, member) \<in> set entries \<Longrightarrow>
   zip_open entries name = Inr member"
  by (simp add: zip_open_def distinct_rev rev_map [symmetric])

lemma first_metadata_entry_mem:
  "first_metadata_entry entries = Some entry \<Longrightarrow> entry \<in> set entries"
  by (auto simp: first_metadata_entry_def find_Some_iff)

lemma gcm_archive:
  assumes "objects w b (zip_key v) = Inr (Zip entries)"
  shows "get_cases_metadata b v w =
     (case find (\<lambda>name. endswith name ''CasesMetadata.json'') (namelist entries) of
        None \<Rightarrow> (Inr None, log (Print (NotFoundInZip (zip_key v))) (log (GetObject b (zip_key v)) w))
      | Some name \<Rightarrow>
          (case parsed_cases (zip_open entries name) of
             None \<Rightarrow> (Inr None,
                       log (Print (ErrorMetadataZip (zip_key v)
                              (case zip_open entries name of Inl e \<Rightarrow> e | Inr m \<Rightarrow> JSONDecodeError)))
                         (log (GetObject b (zip_key v)) w))
           | Some cases \<Rightarrow> (Inr (Some cases), log (GetObject b (zip_key v)) w)))"
  by (simp add: get_cases_metadata_def metadata_from_zip_archive[OF assms] parsed_cases_def
      json_load_def zip_open_def split: option.splits sum.splits blob.splits)

lemma gcm_missing:
  assumes "objects w b (zip_key v) = Inl NoSuchKey"
  shows "get_cases_metadata b v w =
     (case parsed_cases (objects w b (unzipped_key v)) of
        None \<Rightarrow> (Inr None,
                  log (Print (ErrorMetadataUnzipped (unzipped_key v)
                         (case objects w b (unzipped_key v) of Inl e \<Rightarrow> e | Inr m \<Rightarrow> JSONDecodeError)))
                    (log (GetObject b (unzipped_key v)) (log (GetObject b (zip_key v)) w)))
      | Some cases \<Rightarrow> (Inr (Some cases),
                        log (GetObject b (unzipped_key v)) (log (GetObject b (zip_key v)) w)))"
  by (simp add: get_cases_metadata_def metadata_from_zip_missing[OF assms] parsed_cases_def
      metadata_from_unzipped_def get_object_def log_def
      json_load_def split: option.splits sum.splits blob.splits)

lemma gcm_failure:
  assumes "objects w b (zip_key v) = Inl e" "e \<noteq> NoSuchKey"
  shows "get_cases_metadata b v w =
     (Inr None, log (Print (ErrorMetadataZip (zip_key v) e)) (log (GetObject b (zip_key v)) w))"
  using assms(2) by (simp add: get_cases_metadata_def metadata_from_zip_missing[OF assms(1)])

lemma gcm_not_archive:
  assumes "objects w b (zip_key v) = Inr body" "\<forall>entries. body \<noteq> Zip entries"
  shows "get_cases_metadata b v w =
     (Inr None, log (Print (ErrorMetadataZip (zip_key v) BadZipFile)) (log (GetObject b (zip_key v)) w))"
  by (simp add: get_cases_metadata_def metadata_from_zip_not_archive[OF assms])

lemma map_of_rev_last:
  "map_of (rev xs) k =
     (if filter (\<lambda>e. fst e = k) xs = [] then None
      else Some (snd (last (filter (\<lambda>e. fst e = k) xs))))"
  by (induction xs rule: rev_induct) auto

lemma zip_open_last_member:
  "(name, member) \<in> set entries \<Longrightarrow> zip_open entries name = Inr (last_member_named entries name)"
proof -
  assume "(name, member) \<in> set entries"
  then have "filter (\<lambda>entry. fst entry = name) entries \<noteq> []"
    by (force simp: filter_empty_conv)
  then show ?thesis
    by (simp add: zip_open_def last_member_named_def map_of_rev_last)
qed

text \<open>
  Claim C5, as stated, fails: in an archive whose two members carry the same name ending with
  \<open>CasesMetadata.json\<close>, the first such entry holds case "a", and the loader does not return
  it (\<open>zip_ref.open\<close> of the name gives the later member).
\<close>

theorem get_cases_metadata_first_entry_counterexample:
  "first_metadata_entry duplicate_entries =
     Some (''1/CasesMetadata.json'', Json [demo_case ''a'' 1 2 ''Harvard''])
   \<and> fst (get_cases_metadata READ_BUCKET demo_volume
            (world_of [(''us/1.zip'', Inr (Zip duplicate_entries))])) \<noteq>
       Inr (Some [demo_case ''a'' 1 2 ''Harvard''])"
  by (simp add: first_metadata_entry_def duplicate_entries_def endswith_def
      get_cases_metadata_def metadata_from_zip_def get_object_def ZipFile_def namelist_def
      zip_open_def json_load_def world_of_def store_of_def demo_volume_def zip_key_def
      demo_case_def)

text \<open>
  Claim C5, amended. The loader never raises. It reads the packed key
  \<open>{reporter}/{volume}.zip\<close> first, and reads the unpacked key
  \<open>{reporter}/{volume}/CasesMetadata.json\<close> exactly when the packed read answered "no such
  key". When the packed object is an archive, it takes the name of the first entry, in archive
  order, whose name ends with \<open>CasesMetadata.json\<close>, and the result is the parse of the
  member opened under that name: the last member carrying the name, which is that first entry
  itself when the member names are distinct; it is absent when no name matches, without a
  second read. When the packed object is missing, the result is the parse of the unpacked
  object. Every other storage or parse failure on either path gives absent.
\<close>

theorem get_cases_metadata_packed_then_fallback:
  "(\<exists>r. fst (get_cases_metadata b v w) = Inr r)
   \<and> filter is_get_object (new_events w (snd (get_cases_metadata b v w))) =
       (if objects w b (zip_key v) = Inl NoSuchKey
        then [GetObject b (zip_key v), GetObject b (unzipped_key v)]
        else [GetObject b (zip_key v)])
   \<and> (\<forall>entries. objects w b (zip_key v) = Inr (Zip entries) \<longrightarrow>
         fst (get_cases_metadata b v w) =
           Inr (case first_metadata_entry entries of
                  None \<Rightarrow> None
                | Some entry \<Rightarrow> parsed_cases (Inr (last_member_named entries (fst entry)))))
   \<and> (\<forall>entries. objects w b (zip_key v) = Inr (Zip entries) \<and> distinct (namelist entries) \<longrightarrow>
         fst (get_cases_metadata b v w) =
           Inr (case first_metadata_entry entries of
                  None \<Rightarrow> None
                | Some entry \<Rightarrow> parsed_cases (Inr (snd entry))))
   \<and> (objects w b (zip_key v) = Inl NoSuchKey \<longrightarrow>
         fst (get_cases_metadata b v w) = Inr (parsed_cases (objects w b (unzipped_key v))))
   \<and> ((\<forall>entries. objects w b (zip_key v) \<noteq> Inr (Zip entries))
        \<and> objects w b (zip_key v) \<noteq> Inl NoSuchKey \<longrightarrow>
         fst (get_cases_metadata b v w) = Inr None)"
proof (cases "objects w b (zip_key v)")
  case (Inl e)
  show ?thesis
  proof (cases "e = NoSuchKey")
    case True
    with Inl have m: "objects w b (zip_key v) = Inl NoSuchKey" by simp
    show ?thesis
      by (simp add: gcm_missing[OF m] m split: option.splits)
  next
    case False
    show ?thesis
      using False by (simp add: gcm_failure[OF Inl False] Inl)
  qed
next
  case (Inr body)
  show ?thesis
  proof (cases "\<exists>entries. body = Zip entries")
    case False
    then have n: "\<forall>entries. body \<noteq> Zip entries" by simp
    show ?thesis
      using n by (simp add: gcm_not_archive[OF Inr n] Inr)
  next
    case True
    then obtain entries where body: "body = Zip entries" by blast
    with Inr have z: "objects w b (zip_key v) = Inr (Zip entries)" by simp
    have res0: "fst (get_cases_metadata b v w) =
           Inr (case find (\<lambda>name. endswith name ''CasesMetadata.json'') (namelist entries) of
                  None \<Rightarrow> None
                | Some name \<Rightarrow> parsed_cases (zip_open entries name))"
      by (simp add: gcm_archive[OF z] split: option.splits)
    have opened: "(case find (\<lambda>name. endswith name ''CasesMetadata.json'') (namelist entries) of
                  None \<Rightarrow> None
                | Some name \<Rightarrow> parsed_cases (zip_open entries name)) =
             (case first_metadata_entry entries of
                  None \<Rightarrow> None
                | Some entry \<Rightarrow> parsed_cases (Inr (last_member_named entries (fst entry))))"
    proof (cases "first_metadata_entry entries")
      case None
      then show ?thesis
        by (simp add: namelist_def find_map_fst first_metadata_entry_def)
    next
      case (Some entry)
      have "(fst entry, snd entry) \<in> set entries"
        using first_metadata_entry_mem[OF Some] by simp
      then have "zip_open entries (fst entry) = Inr (last_member_named entries (fst entry))"
        by (rule zip_open_last_member)
      with Some show ?thesis
        by (simp add: namelist_def find_map_fst first_metadata_entry_def)
    qed
    have d: "distinct (namelist entries) \<Longrightarrow>
             (case first_metadata_entry entries of
                  None \<Rightarrow> None
                | Some entry \<Rightarrow> parsed_cases (Inr (last_member_named entries (fst entry)))) =
             (case first_metadata_entry entries of
                  None \<Rightarrow> None
                | Some entry \<Rightarrow> parsed_cases (Inr (snd entry)))"
    proof (cases "first_metadata_entry entries")
      case None
      then show ?thesis by simp
    next
      case (Some entry)
      assume dn: "distinct (namelist entries)"
      have mem: "(fst entry, snd entry) \<in> set entries"
        using first_metadata_entry_mem[OF Some] by simp
      with dn have "zip_open entries (fst entry) = Inr (snd entry)"
        by (simp add: zip_open_distinct namelist_def)
      with zip_open_last_member[OF mem]
      have "last_member_named entries (fst entry) = snd entry" by simp
      with Some show ?thesis by simp
    qed
    have res: "fst (get_cases_metadata b v w) =
           Inr (case first_metadata_entry entries of
                  None \<Rightarrow> None
                | Some entry \<Rightarrow> parsed_cases (Inr (last_member_named entries (fst entry))))"
      by (simp only: res0 opened)
    have ev: "filter is_get_object (new_events w (snd (get_cases_metadata b v w))) =
              [GetObject b (zip_key v)]"
      by (simp add: gcm_archive[OF z] split: option.splits)
    from d have res': "distinct (namelist entries) \<longrightarrow>
         fst (get_cases_metadata b v w) =
           Inr (case first_metadata_entry entries of
                  None \<Rightarrow> None
                | Some entry \<Rightarrow> parsed_cases (Inr (snd entry)))"
      by (simp only: res) simp
    show ?thesis
      using res' by (simp add: z res ev)
  qed
qed

text \<open>An instance of the amended C5: an archive with two matching names, an archive with one
  name twice, and a volume stored unpacked.\<close>

theorem get_cases_metadata_packed_then_fallback_witness:
  "fst (get_cases_metadata READ_BUCKET demo_volume (world_of [(''us/1.zip'', Inr demo_archive)])) =
     Inr (Some [demo_case ''a'' 1 2 ''Harvard''])
   \<and> filter is_get_object
        (new_events (world_of [(''us/1.zip'', Inr demo_archive)])
           (snd (get_cases_metadata READ_BUCKET demo_volume
                   (world_of [(''us/1.zip'', Inr demo_archive)])))) =
       [GetObject READ_BUCKET ''us/1.zip'']
   \<and> fst (get_cases_metadata READ_BUCKET demo_volume
            (world_of [(''us/1.zip'', Inr (Zip duplicate_entries))])) =
     Inr (Some [demo_case ''z'' 3 5 ''Harvard''])
   \<and> fst (get_cases_metadata READ_BUCKET demo_volume
            (world_of [(''us/1/CasesMetadata.json'', Inr (Json [demo_case ''b'' 3 5 ''Harvard'']))])) =
     Inr (Some [demo_case ''b'' 3 5 ''Harvard''])
   \<and> filter is_get_object
        (new_events (world_of [(''us/1/CasesMetadata.json'', Inr (Json [demo_case ''b'' 3 5 ''Harvard'']))])
           (snd (get_cases_metadata READ_BUCKET demo_volume
                   (world_of [(''us/1/CasesMetadata.json'', Inr (Json [demo_case ''b'' 3 5 ''Harvard'']))])))) =
       [GetObject READ_BUCKET ''us/1.zip'', GetObject READ_BUCKET ''us/1/CasesMetadata.json'']"
  using get_cases_metadata_packed_then_fallback
          [of READ_BUCKET demo_volume "world_of [(''us/1.zip'', Inr demo_archive)]"]
        get_cases_metadata_packed_then_fallback
          [of READ_BUCKET demo_volume "world_of [(''us/1.zip'', Inr (Zip duplicate_entries))]"]
        get_cases_metadata_packed_then_fallback
          [of READ_BUCKET demo_volume
              "world_of [(''us/1/CasesMetadata.json'', Inr (Json [demo_case ''b'' 3 5 ''Harvard'']))]"]
  by (simp add: world_of_def store_of_def demo_volume_def demo_archive_def zip_key_def
      unzipped_key_def namelist_def endswith_def first_metadata_entry_def parsed_cases_def
      last_member_named_def duplicate_entries_def)

section \<open>Properties of upload\_case\_pdfs\<close>

lemma upload_step:
  assumes "files w p = Some body"
  shows "upload_case_pdfs ((n, p) # rest) volume w =
         upload_case_pdfs rest volume
           (w\<lparr>uploaded := uploaded w @ upload_written w volume (n, p),
              files := (files w)(p := None),
              trace := trace w @ upload_events (put_fault w) volume (n, p)\<rparr>)"
  using assms
  by (simp add: upload_file_def os_unlink_def log_def upload_events_def upload_written_def
      split: option.splits)

lemma upload_loop:
  assumes "distinct (map snd case_pdfs)" and "\<forall>p \<in> set (map snd case_pdfs). files w p \<noteq> None"
  shows "fst (upload_case_pdfs case_pdfs volume w) = Inr ()
       \<and> trace (snd (upload_case_pdfs case_pdfs volume w)) =
           trace w @ concat (map (upload_events (put_fault w) volume) case_pdfs)
       \<and> uploaded (snd (upload_case_pdfs case_pdfs volume w)) =
           uploaded w @ concat (map (upload_written w volume) case_pdfs)
       \<and> files (snd (upload_case_pdfs case_pdfs volume w)) =
           (\<lambda>p. if p \<in> set (map snd case_pdfs) then None else files w p)
       \<and> next_tmp (snd (upload_case_pdfs case_pdfs volume w)) = next_tmp w"
  using assms
proof (induction case_pdfs arbitrary: w)
  case Nil
  then show ?case by simp
next
  case (Cons item rest)
  obtain n p where item: "item = (n, p)" by (cases item)
  from Cons.prems item obtain body where body: "files w p = Some body" by auto
  let ?w3 = "w\<lparr>uploaded := uploaded w @ upload_written w volume (n, p),
              files := (files w)(p := None),
              trace := trace w @ upload_events (put_fault w) volume (n, p)\<rparr>"
  have d: "distinct (map snd rest)" and ex: "\<forall>q \<in> set (map snd rest). files ?w3 q \<noteq> None"
    using Cons.prems item by auto
  have same: "map (upload_written ?w3 volume) rest = map (upload_written w volume) rest"
    using Cons.prems item by (auto simp: upload_written_def)
  from Cons.IH[OF d ex] show ?case
    by (simp only: item upload_step[OF body] same) (auto simp: fun_eq_iff)
qed

text \<open>
  Claim C8. For every list of pairs whose temporary files exist and are distinct: the loop
  ends without raising; for each item, in order, it attempts the write to
  \<open>{reporter}/{volume}/case-pdfs/{case_name}.pdf\<close>, prints the success or the caught error,
  and deletes the item's temporary file before the next item's write is attempted; the
  items whose write the store accepts are exactly the objects written, so a refused write
  stops none of the later ones; afterwards none of the temporary files is left.
\<close>

theorem upload_case_pdfs_every_item:
  assumes "distinct (map snd case_pdfs)" and "\<forall>p \<in> set (map snd case_pdfs). files w p \<noteq> None"
  shows "fst (upload_case_pdfs case_pdfs volume w) = Inr ()
       \<and> new_events w (snd (upload_case_pdfs case_pdfs volume w)) =
           concat (map (upload_events (put_fault w) volume) case_pdfs)
       \<and> uploaded (snd (upload_case_pdfs case_pdfs volume w)) =
           uploaded w @ concat (map (upload_written w volume) case_pdfs)
       \<and> (\<forall>p \<in> set (map snd case_pdfs). files (snd (upload_case_pdfs case_pdfs volume w)) p = None)"
  using upload_loop[OF assms, of volume] by (simp add: new_events_def)

text \<open>An instance of C8: three files, the store refusing the second.\<close>

theorem upload_case_pdfs_every_item_witness:
  "fst (upload_case_pdfs [(''a'', 1), (''b'', 2), (''c'', 3)] demo_volume upload_world) = Inr ()
   \<and> new_events upload_world
        (snd (upload_case_pdfs [(''a'', 1), (''b'', 2), (''c'', 3)] demo_volume upload_world)) =
      [UploadFile 1 WRITE_BUCKET ''us/1/case-pdfs/a.pdf'',
       Print (Uploaded ''us/1/case-pdfs/a.pdf'' WRITE_BUCKET), Unlink 1,
       UploadFile 2 WRITE_BUCKET ''us/1/case-pdfs/b.pdf'',
       Print (ErrorUploading ''b'' ''1'' ''us'' ClientError), Unlink 2,
       UploadFile 3 WRITE_BUCKET ''us/1/case-pdfs/c.pdf'',
       Print (Uploaded ''us/1/case-pdfs/c.pdf'' WRITE_BUCKET), Unlink 3]
   \<and> uploaded (snd (upload_case_pdfs [(''a'', 1), (''b'', 2), (''c'', 3)] demo_volume upload_world)) =
      [(WRITE_BUCKET, ''us/1/case-pdfs/a.pdf'', Pdf [Page 1]),
       (WRITE_BUCKET, ''us/1/case-pdfs/c.pdf'', Pdf [Page 3])]"
  using upload_case_pdfs_every_item [of "[(''a'', 1), (''b'', 2), (''c'', 3)]" upload_world demo_volume]
  by (simp add: upload_world_def demo_volume_def upload_events_def upload_written_def
      case_pdf_key_def)

section \<open>Properties of get\_volumes\_to\_process\<close>

text \<open>
  The coercion at some inputs: plain digits, a no-break space in front (dropped), a unit
  separator behind (not dropped), digits of another script, one digit more than the limit.
\<close>

lemma digit_of_ascii: "48 \<le> c \<Longrightarrow> c < 58 \<Longrightarrow> digit_of c = Some (c - 48)"
  by (simp add: digit_of_def decimal_runs_def)

lemma not_space_ascii_digit: "48 \<le> c \<Longrightarrow> c < 58 \<Longrightarrow> \<not> is_space c"
  by (auto simp: is_space_def int_whitespace_def)

lemma digit_of_arabic_indic: "digit_of 0x660 = Some 0" "digit_of 0x661 = Some 1" "digit_of 0x669 = Some 9"
  by (simp_all add: digit_of_def decimal_runs_def)

lemma spaces_of_int:
  "is_space 0xA0" "\<not> is_space 0x1F" "\<not> is_space 0x660" "\<not> is_space 0x661" "\<not> is_space 0x669"
  by (simp_all add: is_space_def int_whitespace_def)

lemma digit_of_unit_separator: "digit_of 0x1F = None"
  by (simp add: digit_of_def decimal_runs_def)

lemma py_int_1990: "py_int (codepoints ''1990'') = Inr 1990"
  by (simp add: py_int_def codepoints_def strip_def unsigned_value_def int_max_str_digits_def
      digit_of_ascii not_space_ascii_digit)

lemma py_int_no_break_space: "py_int (0xA0 # codepoints ''1990'') = Inr 1990"
  by (simp add: py_int_def codepoints_def strip_def unsigned_value_def int_max_str_digits_def
      digit_of_ascii not_space_ascii_digit spaces_of_int)

lemma py_int_unit_separator: "py_int (codepoints ''1990'' @ [0x1F]) = Inl ValueError"
  by (simp add: py_int_def codepoints_def strip_def unsigned_value_def int_max_str_digits_def
      digit_of_ascii not_space_ascii_digit spaces_of_int digit_of_unit_separator)

lemma py_int_arabic_indic: "py_int [0x661, 0x669, 0x669, 0x660] = Inr 1990"
  by (simp add: py_int_def strip_def unsigned_value_def int_max_str_digits_def
      digit_of_arabic_indic spaces_of_int)

lemma py_int_over_digit_limit:
  "py_int (replicate (Suc int_max_str_digits) 0x31) = Inl ValueError"
proof -
  have d: "digit_of 0x31 = Some 1" and s: "\<not> is_space 0x31"
    by (simp_all add: digit_of_ascii not_space_ascii_digit)
  have "strip (replicate (Suc int_max_str_digits) 0x31) = replicate (Suc int_max_str_digits) 0x31"
    using s by (simp add: strip_def dropWhile_replicate del: replicate_Suc)
  then show ?thesis
    using d by (simp add: py_int_def unsigned_value_def)
qed

lemma year_comprehension_raises:
  "py_int y = Inl e \<Longrightarrow> vs \<noteq> [] \<Longrightarrow> year_comprehension vs y = Inl e"
  by (cases vs) simp_all

lemma year_comprehension_filter:
  "py_int y = Inr n \<Longrightarrow>
   year_comprehension vs y = Inr (filter (\<lambda>v. publication_year v = Some n) vs)"
  by (induction vs) simp_all

text \<open>
  Claim C6, as stated, fails: with a volume selector and no reporter the function returns
  nothing, although the catalog record satisfies the only filter that was given.
\<close>

theorem get_volumes_to_process_guard_counterexample:
  "volume_folder demo_volume = ''1''
   \<and> get_volumes_to_process [demo_volume] None (Some ''1'') None \<noteq> Inr [demo_volume]"
  by (simp add: get_volumes_to_process_def truthy_def demo_volume_def)

text \<open>
  Claim C6, amended. For every catalog and every combination of selectors whose year
  selector, when non-empty, is the decimal text of an integer \<open>n\<close>: when a non-empty volume
  selector comes with no reporter (\<open>None\<close>), the result is the empty list; in every other
  case the result is exactly the catalog records, in catalog order, that satisfy the
  conjunction of the non-empty selectors: reporter equality, volume equality, and
  \<open>publication_year\<close> equal to \<open>n\<close>. A record without \<open>publication_year\<close> is never in
  the result of a call with a non-empty year selector.
\<close>

theorem get_volumes_to_process_filters:
  assumes "\<forall>y. year = Some y \<and> y \<noteq> [] \<longrightarrow> py_int y = Inr n"
  shows "get_volumes_to_process catalog reporter volume year =
           (if truthy volume \<and> reporter = None then Inr []
            else Inr (filter (\<lambda>v. (truthy reporter \<longrightarrow> Some (reporter_slug v) = reporter)
                                \<and> (truthy volume \<longrightarrow> Some (volume_folder v) = volume)
                                \<and> (truthy year \<longrightarrow> publication_year v = Some n)) catalog))
         \<and> (truthy year \<longrightarrow>
              (\<forall>v \<in> set (case get_volumes_to_process catalog reporter volume year of
                             Inl e \<Rightarrow> [] | Inr kept \<Rightarrow> kept). publication_year v \<noteq> None))"
proof -
  have a: "get_volumes_to_process catalog reporter volume year =
           (if truthy volume \<and> reporter = None then Inr []
            else Inr (filter (\<lambda>v. (truthy reporter \<longrightarrow> Some (reporter_slug v) = reporter)
                                \<and> (truthy volume \<longrightarrow> Some (volume_folder v) = volume)
                                \<and> (truthy year \<longrightarrow> publication_year v = Some n)) catalog))"
  proof (cases year)
    case None
    then show ?thesis
      by (auto simp: get_volumes_to_process_def truthy_def Let_def intro: filter_cong)
  next
    case (Some y)
    show ?thesis
    proof (cases "y = []")
      case True
      with Some show ?thesis
        by (auto simp: get_volumes_to_process_def truthy_def Let_def intro: filter_cong)
    next
      case False
      with Some assms have "py_int y = Inr n" by simp
      with Some False show ?thesis
        by (auto simp: get_volumes_to_process_def truthy_def Let_def year_comprehension_filter
            intro: filter_cong)
    qed
  qed
  have b: "truthy year \<longrightarrow>
              (\<forall>v \<in> set (case get_volumes_to_process catalog reporter volume year of
                             Inl e \<Rightarrow> [] | Inr kept \<Rightarrow> kept). publication_year v \<noteq> None)"
    by (simp add: a truthy_def split: option.splits)
  from a b show ?thesis by blast
qed

text \<open>An instance of the amended C6: all three selectors on four records, and the guard.\<close>

theorem get_volumes_to_process_filters_witness:
  "get_volumes_to_process
     [demo_volume, demo_volume\<lparr>volume_folder := ''2''\<rparr>,
      demo_volume\<lparr>publication_year := None\<rparr>, demo_volume\<lparr>reporter_slug := ''f2d''\<rparr>]
     (Some ''us'') (Some ''1'') (Some (codepoints ''1990'')) = Inr [demo_volume]
   \<and> get_volumes_to_process [demo_volume] None (Some ''1'') (Some (codepoints ''1990'')) = Inr []"
proof -
  have ne: "codepoints ''1990'' \<noteq> []"
    by (simp add: codepoints_def)
  show ?thesis
    using ne
      get_volumes_to_process_filters
        [of "Some (codepoints ''1990'')" 1990
            "[demo_volume, demo_volume\<lparr>volume_folder := ''2''\<rparr>,
              demo_volume\<lparr>publication_year := None\<rparr>, demo_volume\<lparr>reporter_slug := ''f2d''\<rparr>]"
            "Some ''us''" "Some ''1''"]
      get_volumes_to_process_filters
        [of "Some (codepoints ''1990'')" 1990 "[demo_volume]" None "Some ''1''"]
    by (simp add: demo_volume_def truthy_def py_int_1990)
qed

section \<open>Properties of process\_volume\<close>

lemma pdf_key_differs:
  "pdf_key v \<noteq> zip_key v" "pdf_key v \<noteq> unzipped_key v"
  "zip_key v \<noteq> pdf_key v" "unzipped_key v \<noteq> pdf_key v"
  by (simp_all add: pdf_key_def zip_key_def unzipped_key_def)

lemma gcm_world:
  "snd (get_cases_metadata b v w) =
     w\<lparr>trace := trace w @ new_events w (snd (get_cases_metadata b v w))\<rparr>
   \<and> list_all (quiet v) (new_events w (snd (get_cases_metadata b v w)))"
proof (cases "objects w b (zip_key v)")
  case (Inl e)
  show ?thesis
  proof (cases "e = NoSuchKey")
    case True
    with Inl have m: "objects w b (zip_key v) = Inl NoSuchKey" by simp
    show ?thesis
      by (simp add: gcm_missing[OF m] quiet_def pdf_key_differs split: option.splits)
         (simp add: log_def)
  next
    case False
    show ?thesis
      by (simp add: gcm_failure[OF Inl False] quiet_def pdf_key_differs) (simp add: log_def)
  qed
next
  case (Inr body)
  show ?thesis
  proof (cases "\<exists>entries. body = Zip entries")
    case False
    then have n: "\<forall>entries. body \<noteq> Zip entries" by simp
    show ?thesis
      by (simp add: gcm_not_archive[OF Inr n] quiet_def pdf_key_differs) (simp add: log_def)
  next
    case True
    then obtain entries where "body = Zip entries" by blast
    with Inr have z: "objects w b (zip_key v) = Inr (Zip entries)" by simp
    show ?thesis
      by (simp add: gcm_archive[OF z] quiet_def pdf_key_differs split: option.splits)
         (simp add: log_def)
  qed
qed

lemma skip_after_loader:
  assumes "process_volume v w = (Inr None, log (Print m) (snd (get_cases_metadata READ_BUCKET v w)))"
  shows "fst (process_volume v w) = Inr None
       \<and> new_events w (snd (process_volume v w)) =
           new_events w (snd (get_cases_metadata READ_BUCKET v w)) @ [Print m]
       \<and> list_all (quiet v) (new_events w (snd (process_volume v w)))
       \<and> files (snd (process_volume v w)) = files w
       \<and> next_tmp (snd (process_volume v w)) = next_tmp w
       \<and> uploaded (snd (process_volume v w)) = uploaded w"
proof -
  from gcm_world[of READ_BUCKET v w]
  have evs: "snd (get_cases_metadata READ_BUCKET v w) =
               w\<lparr>trace := trace w @ new_events w (snd (get_cases_metadata READ_BUCKET v w))\<rparr>"
    and q: "list_all (quiet v) (new_events w (snd (get_cases_metadata READ_BUCKET v w)))"
    by simp_all
  have tr: "trace (snd (get_cases_metadata READ_BUCKET v w)) =
              trace w @ new_events w (snd (get_cases_metadata READ_BUCKET v w))"
    and fr: "files (snd (get_cases_metadata READ_BUCKET v w)) = files w"
            "next_tmp (snd (get_cases_metadata READ_BUCKET v w)) = next_tmp w"
            "uploaded (snd (get_cases_metadata READ_BUCKET v w)) = uploaded w"
    by (subst evs, simp)+
  have ne: "new_events w (log (Print m) (snd (get_cases_metadata READ_BUCKET v w))) =
            new_events w (snd (get_cases_metadata READ_BUCKET v w)) @ [Print m]"
  proof -
    have "length (trace w) \<le> length (trace (snd (get_cases_metadata READ_BUCKET v w)))"
      by (subst tr) simp
    then show ?thesis by (simp add: new_events_def log_def)
  qed
  show ?thesis
    using q by (simp add: assms ne quiet_def) (simp add: log_def fr)
qed

lemma loader_eval:
  assumes "objects w b (zip_key v) = Inl NoSuchKey"
      and "objects w b (unzipped_key v) = Inr (Json cs)"
  shows "get_cases_metadata b v w =
           (Inr (Some cs),
            w\<lparr>trace := trace w @ [GetObject b (zip_key v), GetObject b (unzipped_key v)]\<rparr>)"
  using assms
  by (simp add: get_cases_metadata_def metadata_from_zip_def metadata_from_unzipped_def
      get_object_def log_def json_load_def)

text \<open>
  Claim C7. When the case metadata of a volume is a non-empty list in which every record has
  provenance source "Fastcase", process\_volume returns without a status and, after the
  loader's own reads, only prints that it skips the all-Fastcase volume: no event creates,
  reads, uploads or deletes a local file, none reads the volume's PDF key, and the local
  files, the temporary-file counter and the write bucket are as before.
\<close>

theorem process_volume_all_fastcase_skips:
  assumes "fst (get_cases_metadata READ_BUCKET volume w) = Inr (Some cases)"
      and "cases \<noteq> []"
      and "\<forall>c \<in> set cases. source (provenance c) = ''Fastcase''"
  shows "fst (process_volume volume w) = Inr None
       \<and> new_events w (snd (process_volume volume w)) =
           new_events w (snd (get_cases_metadata READ_BUCKET volume w))
             @ [Print (SkippingAllFastcase (volume_folder volume))]
       \<and> list_all (quiet volume) (new_events w (snd (process_volume volume w)))
       \<and> files (snd (process_volume volume w)) = files w
       \<and> next_tmp (snd (process_volume volume w)) = next_tmp w
       \<and> uploaded (snd (process_volume volume w)) = uploaded w"
proof -
  have "process_volume volume w =
        (Inr None, log (Print (SkippingAllFastcase (volume_folder volume)))
                     (snd (get_cases_metadata READ_BUCKET volume w)))"
    using assms
    by (cases "get_cases_metadata READ_BUCKET volume w")
       (simp add: process_volume_def list_all_iff)
  then show ?thesis by (rule skip_after_loader)
qed

text \<open>An instance of C7: a volume stored unpacked with two records, both "Fastcase".\<close>

theorem process_volume_all_fastcase_skips_witness:
  "fst (process_volume demo_volume
          (world_of [(''us/1/CasesMetadata.json'',
                      Inr (Json [demo_case ''a'' 1 2 ''Fastcase'', demo_case ''b'' 3 5 ''Fastcase'']))]))
     = Inr None
   \<and> new_events
        (world_of [(''us/1/CasesMetadata.json'',
                      Inr (Json [demo_case ''a'' 1 2 ''Fastcase'', demo_case ''b'' 3 5 ''Fastcase'']))])
        (snd (process_volume demo_volume
          (world_of [(''us/1/CasesMetadata.json'',
                      Inr (Json [demo_case ''a'' 1 2 ''Fastcase'', demo_case ''b'' 3 5 ''Fastcase'']))])))
     = [GetObject READ_BUCKET ''us/1.zip'', GetObject READ_BUCKET ''us/1/CasesMetadata.json'',
        Print (SkippingAllFastcase ''1'')]"
  using process_volume_all_fastcase_skips
          [of demo_volume
              "world_of [(''us/1/CasesMetadata.json'',
                      Inr (Json [demo_case ''a'' 1 2 ''Fastcase'', demo_case ''b'' 3 5 ''Fastcase'']))]"
              "[demo_case ''a'' 1 2 ''Fastcase'', demo_case ''b'' 3 5 ''Fastcase'']"]
  by (simp add: loader_eval new_events_def demo_case_def demo_volume_def world_of_def store_of_def
      zip_key_def unzipped_key_def)

text \<open>
  Claim C10. When the case metadata resolves to the empty list, process\_volume does exactly
  what it does for absent metadata: it returns without a status (no zero-count summary), and
  after the loader's own reads it only prints the "missing metadata" skip; nothing is
  downloaded, no temporary file is created, nothing is split or uploaded.
\<close>

theorem process_volume_empty_metadata_skips:
  assumes "fst (get_cases_metadata READ_BUCKET volume w) = Inr m"
      and "m = None \<or> m = Some []"
  shows "fst (process_volume volume w) = Inr None
       \<and> new_events w (snd (process_volume volume w)) =
           new_events w (snd (get_cases_metadata READ_BUCKET volume w))
             @ [Print (SkippingMissingMetadata (volume_folder volume))]
       \<and> list_all (quiet volume) (new_events w (snd (process_volume volume w)))
       \<and> files (snd (process_volume volume w)) = files w
       \<and> next_tmp (snd (process_volume volume w)) = next_tmp w
       \<and> uploaded (snd (process_volume volume w)) = uploaded w"
proof -
  have "process_volume volume w =
        (Inr None, log (Print (SkippingMissingMetadata (volume_folder volume)))
                     (snd (get_cases_metadata READ_BUCKET volume w)))"
    using assms
    by (cases "get_cases_metadata READ_BUCKET volume w")
       (auto simp: process_volume_def skip_missing_metadata_def)
  then show ?thesis by (rule skip_after_loader)
qed

text \<open>An instance of C10: the unpacked metadata object is the empty JSON array.\<close>

theorem process_volume_empty_metadata_skips_witness:
  "fst (process_volume demo_volume (world_of [(''us/1/CasesMetadata.json'', Inr (Json []))]))
     = Inr None
   \<and> new_events (world_of [(''us/1/CasesMetadata.json'', Inr (Json []))])
        (snd (process_volume demo_volume (world_of [(''us/1/CasesMetadata.json'', Inr (Json []))])))
     = [GetObject READ_BUCKET ''us/1.zip'', GetObject READ_BUCKET ''us/1/CasesMetadata.json'',
        Print (SkippingMissingMetadata ''1'')]"
  using process_volume_empty_metadata_skips
          [of demo_volume "world_of [(''us/1/CasesMetadata.json'', Inr (Json []))]" "Some []"]
  by (simp add: loader_eval new_events_def demo_volume_def world_of_def store_of_def
      zip_key_def unzipped_key_def)

text \<open>
  Claim C3 does not hold of the code. The metadata names one case to split and the read of
  the volume's PDF fails: download\_pdf re-raises, and since it is called before the
  \<open>try\<close> statement of process\_volume, the exception leaves process\_volume.
\<close>

theorem process_volume_download_failure_raises:
  "fst (process_volume demo_volume failing_world) = Inl ClientError"
  by (simp add: failing_world_def process_volume_def loader_eval
        named_temporary_file_def download_pdf_def download_file_def log_def
        world_of_def store_of_def demo_case_def demo_volume_def pdf_key_def
        zip_key_def unzipped_key_def)

text \<open>
  Claim C4 does not hold of the code. On the same input the temporary file made for the
  download (file 0) still exists when process\_volume is left, and no unlink was performed:
  the \<open>finally\<close> clause that deletes it belongs to the \<open>try\<close> that was never entered.
\<close>

theorem process_volume_download_failure_leaves_file:
  "files (snd (process_volume demo_volume failing_world)) 0 = Some Raw
   \<and> trace (snd (process_volume demo_volume failing_world)) =
       [GetObject READ_BUCKET ''us/1.zip'', GetObject READ_BUCKET ''us/1/CasesMetadata.json'',
        CreateTemp 0, DownloadFile READ_BUCKET ''us/1.pdf'' 0,
        Print (ErrorDownloading ''1'' ''us'' ClientError)]"
  by (simp add: failing_world_def process_volume_def loader_eval
        named_temporary_file_def download_pdf_def download_file_def log_def
        world_of_def store_of_def demo_case_def demo_volume_def pdf_key_def
        zip_key_def unzipped_key_def)

text \<open>
  The sibling paths, for comparison. Once the download has succeeded, whatever the split and
  the upload do, process\_volume returns a status and the temporary file of the source PDF
  is gone: the split writes only to files created after it, the upload deletes only those,
  so the \<open>finally\<close> clause finds the file and removes it.
\<close>

lemma split_loop_frame:
  "next_tmp w \<le> next_tmp (snd (split_loop ps cs acc w))
   \<and> (\<forall>p < next_tmp w. files (snd (split_loop ps cs acc w)) p = files w p)
   \<and> (\<forall>pairs. fst (split_loop ps cs acc w) = Inr pairs \<longrightarrow>
         map snd pairs = map snd acc @ [next_tmp w ..< next_tmp (snd (split_loop ps cs acc w))]
         \<and> (\<forall>p. next_tmp w \<le> p \<and> p < next_tmp (snd (split_loop ps cs acc w)) \<longrightarrow>
                files (snd (split_loop ps cs acc w)) p \<noteq> None))"
proof (induction cs arbitrary: acc w)
  case Nil
  show ?case by auto
next
  case (Cons c rest)
  show ?case
  proof (cases "source (provenance c) \<noteq> ''Fastcase''")
    case False
    with Cons[where acc=acc and w=w] show ?thesis by simp
  next
    case True
    show ?thesis
    proof (cases "add_pages ps [first_page_order c - 1..last_page_order c - 1] []")
      case (Inl e)
      with True show ?thesis by simp
    next
      case (Inr doc)
      let ?w2 = "write_file (next_tmp w) (Pdf doc) (snd (named_temporary_file w))"
      let ?acc2 = "acc @ [(file_name c, next_tmp w)]"
      have step: "split_loop ps (c # rest) acc w = split_loop ps rest ?acc2 ?w2"
        using True Inr by (simp add: named_temporary_file_def)
      have nt: "next_tmp ?w2 = Suc (next_tmp w)"
        by (simp add: write_file_def named_temporary_file_def log_def)
      have fl: "files ?w2 = (files w)(next_tmp w \<mapsto> Pdf doc)"
        by (simp add: write_file_def named_temporary_file_def log_def)
      note ih = Cons[where acc="?acc2" and w="?w2", unfolded nt fl]
      let ?w' = "snd (split_loop ps rest ?acc2 ?w2)"
      from ih have mono: "Suc (next_tmp w) \<le> next_tmp ?w'" by blast
      from ih have below: "\<forall>p < Suc (next_tmp w). files ?w' p = ((files w)(next_tmp w \<mapsto> Pdf doc)) p"
        by blast
      have a: "next_tmp w \<le> next_tmp ?w'" using mono by simp
      have b: "\<forall>p < next_tmp w. files ?w' p = files w p" using below by simp
      have here: "files ?w' (next_tmp w) \<noteq> None" using below by simp
      have c: "\<forall>pairs. fst (split_loop ps rest ?acc2 ?w2) = Inr pairs \<longrightarrow>
         map snd pairs = map snd acc @ [next_tmp w ..< next_tmp ?w']
         \<and> (\<forall>p. next_tmp w \<le> p \<and> p < next_tmp ?w' \<longrightarrow> files ?w' p \<noteq> None)"
      proof (intro allI impI)
        fix pairs assume ok: "fst (split_loop ps rest ?acc2 ?w2) = Inr pairs"
        with ih have m: "map snd pairs = map snd ?acc2 @ [Suc (next_tmp w) ..< next_tmp ?w']"
          and ex: "\<forall>p. Suc (next_tmp w) \<le> p \<and> p < next_tmp ?w' \<longrightarrow> files ?w' p \<noteq> None"
          by blast+
        have u: "[next_tmp w ..< next_tmp ?w'] = next_tmp w # [Suc (next_tmp w) ..< next_tmp ?w']"
          using mono by (simp add: upt_conv_Cons)
        have m': "map snd pairs = map snd acc @ [next_tmp w ..< next_tmp ?w']"
          using m by (simp add: u)
        have ex': "\<forall>p. next_tmp w \<le> p \<and> p < next_tmp ?w' \<longrightarrow> files ?w' p \<noteq> None"
        proof (intro allI impI)
          fix p assume "next_tmp w \<le> p \<and> p < next_tmp ?w'"
          then consider "p = next_tmp w" | "Suc (next_tmp w) \<le> p \<and> p < next_tmp ?w'" by linarith
          then show "files ?w' p \<noteq> None" using here ex by cases auto
        qed
        from m' ex' show "map snd pairs = map snd acc @ [next_tmp w ..< next_tmp ?w']
         \<and> (\<forall>p. next_tmp w \<le> p \<and> p < next_tmp ?w' \<longrightarrow> files ?w' p \<noteq> None)" by blast
      qed
      from a b c show ?thesis by (simp only: step)
    qed
  qed
qed

lemma split_and_upload_keeps_source:
  assumes "pdf_path < next_tmp w" and "files w pdf_path = Some body"
  shows "files (snd (split_and_upload volume pdf_path cases w)) pdf_path = Some body"
proof (cases "PdfReader pdf_path w")
  case (Inl e)
  then show ?thesis using assms by (simp add: split_and_upload_def split_pdf_def)
next
  case (Inr ps)
  obtain r w4 where rw: "split_loop ps cases [] w = (r, w4)"
    by (cases "split_loop ps cases [] w")
  have sp: "split_pdf pdf_path cases w = (r, w4)" using Inr rw by (simp add: split_pdf_def)
  from split_loop_frame[of w ps cases "[]"] assms
  have keep: "files w4 pdf_path = Some body"
    and pairs: "\<forall>pairs. r = Inr pairs \<longrightarrow>
         map snd pairs = [next_tmp w ..< next_tmp w4]
         \<and> (\<forall>p. next_tmp w \<le> p \<and> p < next_tmp w4 \<longrightarrow> files w4 p \<noteq> None)"
    by (auto simp: rw)
  show ?thesis
  proof (cases r)
    case (Inl e)
    then show ?thesis using keep by (simp add: split_and_upload_def sp)
  next
    case (Inr case_pdfs)
    let ?w2 = "log (Print (SplitCount (length case_pdfs))) w4"
    from pairs Inr have m: "map snd case_pdfs = [next_tmp w ..< next_tmp w4]"
      and ex: "\<forall>p. next_tmp w \<le> p \<and> p < next_tmp w4 \<longrightarrow> files w4 p \<noteq> None"
      by blast+
    have d: "distinct (map snd case_pdfs)" by (simp add: m)
    have e: "\<forall>p \<in> set (map snd case_pdfs). files ?w2 p \<noteq> None"
      using ex by (simp add: m log_def)
    have notin: "pdf_path \<notin> set (map snd case_pdfs)" using assms(1) by (simp add: m)
    have keep2: "files ?w2 pdf_path = Some body" using keep by (simp add: log_def)
    obtain u w5 where up: "upload_case_pdfs case_pdfs volume ?w2 = (u, w5)"
      by (cases "upload_case_pdfs case_pdfs volume ?w2")
    from upload_loop[OF d e, of volume] notin
    have "files w5 pdf_path = files ?w2 pdf_path" by (simp add: up)
    with keep2 have k5: "files w5 pdf_path = Some body" by simp
    show ?thesis
    proof (cases "case_pdfs = []")
      case True
      then show ?thesis
        using keep2 Inr by (simp add: split_and_upload_def sp)
    next
      case False
      then show ?thesis
        using k5 Inr by (cases u) (simp_all add: split_and_upload_def sp up)
    qed
  qed
qed

lemma split_and_upload_status:
  "fst (split_and_upload volume pdf_path cases w) = Inr r \<Longrightarrow> \<exists>m. r = Some m"
  by (auto simp: split_and_upload_def split: prod.splits sum.splits if_splits)

lemma try_split_and_upload_returns:
  assumes "pdf_path < next_tmp w" and "files w pdf_path = Some body"
  shows "(\<exists>m. fst (try_split_and_upload volume pdf_path cases w) = Inr (Some m))
       \<and> files (snd (try_split_and_upload volume pdf_path cases w)) pdf_path = None"
proof (cases "split_and_upload volume pdf_path cases w")
  case (Pair r w1)
  from split_and_upload_keeps_source[OF assms, of volume cases] Pair
  have k: "files w1 pdf_path = Some body" by simp
  show ?thesis
  proof (cases r)
    case (Inl e)
    with Pair k show ?thesis
      by (simp add: try_split_and_upload_def os_unlink_def log_def)
  next
    case (Inr m)
    with Pair split_and_upload_status[of volume pdf_path cases w m]
    obtain s where "m = Some s" by auto
    with Inr Pair k show ?thesis
      by (simp add: try_split_and_upload_def os_unlink_def log_def)
  qed
qed

lemma process_volume_after_download:
  assumes "fst (get_cases_metadata READ_BUCKET volume w) = Inr (Some cases)"
      and "cases \<noteq> []"
      and "\<not> list_all (\<lambda>c. source (provenance c) = ''Fastcase'') cases"
      and "objects w READ_BUCKET (pdf_key volume) = Inr body"
  shows "(\<exists>m. fst (process_volume volume w) = Inr (Some m))
       \<and> files (snd (process_volume volume w)) (next_tmp w) = None"
proof -
  let ?w1 = "snd (get_cases_metadata READ_BUCKET volume w)"
  from gcm_world[of READ_BUCKET volume w]
  have evs: "?w1 = w\<lparr>trace := trace w @ new_events w ?w1\<rparr>" by simp
  have fr: "next_tmp ?w1 = next_tmp w" "objects ?w1 = objects w"
    by (subst evs, simp)+
  obtain w3 where dl: "download_pdf volume (next_tmp w) (snd (named_temporary_file ?w1)) = (Inr (), w3)"
    and f3: "files w3 (next_tmp w) = Some body" and n3: "next_tmp w3 = Suc (next_tmp w)"
    using assms(4) fr
    by (simp add: download_pdf_def download_file_def named_temporary_file_def log_def)
  have "process_volume volume w = try_split_and_upload volume (next_tmp w) cases w3"
    using assms(1-3) dl fr
    by (cases "get_cases_metadata READ_BUCKET volume w")
       (simp add: process_volume_def named_temporary_file_def)
  moreover have "next_tmp w < next_tmp w3" by (simp add: n3)
  ultimately show ?thesis
    using try_split_and_upload_returns[OF _ f3, of volume cases] by simp
qed

text \<open>Two complete runs: a page range beyond the document, and a volume with three records.\<close>

lemma process_volume_split_failure_run:
  "fst (process_volume demo_volume split_failure_world) = Inr (Some (ErrorProcessing ''1'' IndexError))
   \<and> files (snd (process_volume demo_volume split_failure_world)) 0 = None
   \<and> trace (snd (process_volume demo_volume split_failure_world)) =
       [GetObject READ_BUCKET ''us/1.zip'', GetObject READ_BUCKET ''us/1/CasesMetadata.json'',
        CreateTemp 0, DownloadFile READ_BUCKET ''us/1.pdf'' 0,
        Print (ErrorProcessingLog ''1'' ''us'' IndexError), Unlink 0]"
  by (simp add: split_failure_world_def process_volume_def loader_eval
        named_temporary_file_def download_pdf_def download_file_def log_def
        world_of_def store_of_def demo_case_def demo_volume_def pdf_key_def
        zip_key_def unzipped_key_def try_split_and_upload_def split_and_upload_def
        split_pdf_def PdfReader_def demo_pages_def pages_getitem_def os_unlink_def upto_rec1)

lemma process_volume_complete_run:
  "fst (process_volume demo_volume complete_world) = Inr (Some (ProcessedCases 2 ''1''))
   \<and> uploaded (snd (process_volume demo_volume complete_world)) =
       [(WRITE_BUCKET, ''us/1/case-pdfs/a.pdf'', Pdf [Page 1, Page 2]),
        (WRITE_BUCKET, ''us/1/case-pdfs/c.pdf'', Pdf [Page 3, Page 4, Page 5])]
   \<and> trace (snd (process_volume demo_volume complete_world)) =
       [GetObject READ_BUCKET ''us/1.zip'', GetObject READ_BUCKET ''us/1/CasesMetadata.json'',
        CreateTemp 0, DownloadFile READ_BUCKET ''us/1.pdf'' 0,
        CreateTemp 1, CreateTemp 2, Print (SplitCount 2),
        UploadFile 1 WRITE_BUCKET ''us/1/case-pdfs/a.pdf'',
        Print (Uploaded ''us/1/case-pdfs/a.pdf'' WRITE_BUCKET), Unlink 1,
        UploadFile 2 WRITE_BUCKET ''us/1/case-pdfs/c.pdf'',
        Print (Uploaded ''us/1/case-pdfs/c.pdf'' WRITE_BUCKET), Unlink 2,
        Unlink 0]
   \<and> files (snd (process_volume demo_volume complete_world)) 0 = None
   \<and> files (snd (process_volume demo_volume complete_world)) 1 = None
   \<and> files (snd (process_volume demo_volume complete_world)) 2 = None"
  by (simp add: complete_world_def process_volume_def loader_eval
        named_temporary_file_def download_pdf_def download_file_def log_def
        world_of_def store_of_def demo_case_def demo_volume_def pdf_key_def
        zip_key_def unzipped_key_def try_split_and_upload_def split_and_upload_def
        split_pdf_def PdfReader_def demo_pages_def pages_getitem_def os_unlink_def upto_rec1
        write_file_def upload_file_def case_pdf_key_def)

end
